theory Spec2Isabelle
  imports Main
begin

unbundle bit_operations_syntax

section \<open>The Hack assembler of HackAssembler.cpp\<close>

text \<open>
  The assembler reads a source file three times, line by line, and writes one line of
  sixteen binary digits per instruction. The file is modelled as the list of lines that
  \<^verbatim>\<open>getline\<close> delivers (opening and reading the stream is outside the model), a
  \<^verbatim>\<open>std::string\<close> as a \<open>string\<close>, an \<^verbatim>\<open>unordered_map\<close> as a map, the
  output stream as the list of lines written. The C++ \<^verbatim>\<open>int\<close> counters are modelled
  as \<open>int\<close>: they count lines of the program (the variable counter from 16 on), so
  they coincide with the 32-bit counters of the code as long as these stay below
  \<open>2 ^ 31\<close>; the theorems about the counters assume a program of fewer than
  \<open>2 ^ 31\<close> lines.
\<close>

subsection \<open>String primitives\<close>

text \<open>
  \<^verbatim>\<open>s.find(c)\<close>: the index of the first occurrence, \<open>None\<close> for \<^verbatim>\<open>npos\<close>
  (which the code tests as \<^verbatim>\<open>== -1\<close>).
\<close>

fun find_chr :: "char \<Rightarrow> string \<Rightarrow> nat option" where
  "find_chr c [] = None"
| "find_chr c (x # xs) = (if x = c then Some 0 else map_option Suc (find_chr c xs))"

text \<open>\<^verbatim>\<open>s.find(c, index)\<close>: the first occurrence at or after \<open>index\<close>.\<close>

definition find_from :: "char \<Rightarrow> nat \<Rightarrow> string \<Rightarrow> nat option" where
  "find_from c index s = map_option (\<lambda>i. i + index) (find_chr c (drop index s))"

text \<open>\<^verbatim>\<open>s.find("//")\<close>: the index of the first occurrence of a substring.\<close>

fun find_str :: "string \<Rightarrow> string \<Rightarrow> nat option" where
  "find_str pat [] = (if pat = [] then Some 0 else None)"
| "find_str pat (x # xs) =
     (if take (length pat) (x # xs) = pat then Some 0
      else map_option Suc (find_str pat xs))"

text \<open>\<^verbatim>\<open>s.erase(index, 1)\<close>.\<close>

definition erase1 :: "nat \<Rightarrow> string \<Rightarrow> string" where
  "erase1 index s = take index s @ drop (Suc index) s"

text \<open>
  \<^verbatim>\<open>(int)str[i]\<close>: the value of a \<^verbatim>\<open>char\<close>, signed as on the usual targets.
  The digits \<open>0\<close> to \<open>9\<close> are 48 to 57 whatever the signedness.
\<close>

definition char_int :: "char \<Rightarrow> int" where
  "char_int c = (if (of_char c :: int) < 128 then of_char c else of_char c - 256)"

subsection \<open>Helpers: trim, AllisNum, stonum\<close>

text \<open>
  \<^verbatim>\<open>
  void trim(string &s) {
      int index = 0;
      if (!s.empty())
          while ((index = s.find(' ', index)) != -1)
              s.erase(index, 1);
  }
  \<close>
\<close>

function trim_loop :: "nat \<Rightarrow> string \<Rightarrow> string" where
  "trim_loop index s =
     (case find_from CHR '' '' index s of
        None \<Rightarrow> s
      | Some i \<Rightarrow> trim_loop i (erase1 i s))"
  by pat_completeness auto

termination trim_loop
proof (relation "measure (\<lambda>(index, s). length s)")
  show "wf (measure (\<lambda>(index, s). length s))"
    by simp
next
  fix index :: nat and s :: string and i :: nat
  assume found: "find_from CHR '' '' index s = Some i"
  have less: "k < length t" if "find_chr c t = Some k" for c t k
    using that by (induction t arbitrary: k) (auto split: if_splits)
  from found obtain k where "find_chr CHR '' '' (drop index s) = Some k" "i = k + index"
    by (auto simp: find_from_def)
  with less [of "CHR '' ''" "drop index s" k] have "i < length s"
    by simp
  then show "((i, erase1 i s), (index, s)) \<in> measure (\<lambda>(index, s). length s)"
    by (simp add: erase1_def)
qed

definition trim :: "string \<Rightarrow> string" where
  "trim s = (if s \<noteq> [] then trim_loop 0 s else s)"

fun AllisNum :: "string \<Rightarrow> bool" where
  "AllisNum [] = True"
| "AllisNum (c # cs) =
     (let tmp = char_int c in if tmp \<ge> 48 \<and> tmp \<le> 57 then AllisNum cs else False)"

text \<open>
  The loop of \<^verbatim>\<open>stonum\<close>, on the characters still to read; \<^verbatim>\<open>return 0\<close> leaves it
  as soon as the number passes 32767.
\<close>

fun stonum_loop :: "int \<Rightarrow> string \<Rightarrow> int" where
  "stonum_loop num [] = num"
| "stonum_loop num (c # cs) =
     (let num' = num * 10 + char_int c - 48 in
      if num' > 32767 then 0 else stonum_loop num' cs)"

definition stonum :: "string \<Rightarrow> int" where
  "stonum str = (if length str > 5 then 0 else stonum_loop 0 str)"

subsection \<open>Class Code: the three encoding tables\<close>

definition destMap :: "string \<rightharpoonup> string" where
  "destMap =
     [''null'' \<mapsto> ''000'', ''M'' \<mapsto> ''001'', ''D'' \<mapsto> ''010'', ''DM'' \<mapsto> ''011'',
      ''MD'' \<mapsto> ''011'', ''A'' \<mapsto> ''100'', ''AM'' \<mapsto> ''101'', ''AD'' \<mapsto> ''110'',
      ''ADM'' \<mapsto> ''111'']"

definition compMap :: "string \<rightharpoonup> string" where
  "compMap =
     [''0'' \<mapsto> ''101010'', ''1'' \<mapsto> ''111111'', ''-1'' \<mapsto> ''111010'',
      ''D'' \<mapsto> ''001100'', ''A'' \<mapsto> ''110000'', ''M'' \<mapsto> ''110000'',
      ''!D'' \<mapsto> ''001101'', ''!A'' \<mapsto> ''110001'', ''!M'' \<mapsto> ''110001'',
      ''-D'' \<mapsto> ''001111'', ''-A'' \<mapsto> ''110011'', ''-M'' \<mapsto> ''110011'',
      ''D+1'' \<mapsto> ''011111'', ''A+1'' \<mapsto> ''110111'', ''M+1'' \<mapsto> ''110111'',
      ''D-1'' \<mapsto> ''001110'', ''A-1'' \<mapsto> ''110010'', ''M-1'' \<mapsto> ''110010'',
      ''D+A'' \<mapsto> ''000010'', ''D+M'' \<mapsto> ''000010'', ''D-A'' \<mapsto> ''010011'',
      ''D-M'' \<mapsto> ''010011'', ''A-D'' \<mapsto> ''000111'', ''M-D'' \<mapsto> ''000111'',
      ''D&A'' \<mapsto> ''000000'', ''D&M'' \<mapsto> ''000000'', ''D|A'' \<mapsto> ''010101'',
      ''D|M'' \<mapsto> ''010101'']"

definition jumpMap :: "string \<rightharpoonup> string" where
  "jumpMap =
     [''null'' \<mapsto> ''000'', ''JGT'' \<mapsto> ''001'', ''JEQ'' \<mapsto> ''010'', ''JGE'' \<mapsto> ''011'',
      ''JLT'' \<mapsto> ''100'', ''JNE'' \<mapsto> ''101'', ''JLE'' \<mapsto> ''110'', ''JMP'' \<mapsto> ''111'']"

text \<open>
  \<^verbatim>\<open>map[key]\<close> of an \<^verbatim>\<open>unordered_map\<close> with string values: the value stored
  under the key, and the empty string for a key that is absent. (The C++ operator also
  stores the empty string under the absent key; a later lookup of that key returns the
  empty string either way, and the tables are read through this operator only.)
\<close>

definition index_str :: "(string \<rightharpoonup> string) \<Rightarrow> string \<Rightarrow> string" where
  "index_str m k = (case m k of None \<Rightarrow> [] | Some v \<Rightarrow> v)"

definition Code_dest :: "string \<Rightarrow> string" where
  "Code_dest d = index_str destMap d"

text \<open>\<^verbatim>\<open>c.find('M') == -1 ? "0" + compMap[c] : "1" + compMap[c]\<close>\<close>

definition Code_comp :: "string \<Rightarrow> string" where
  "Code_comp c =
     (if find_chr CHR ''M'' c = None then ''0'' @ index_str compMap c
      else ''1'' @ index_str compMap c)"

definition Code_jump :: "string \<Rightarrow> string" where
  "Code_jump j = index_str jumpMap j"

subsection \<open>Class SymbolTable\<close>

type_synonym symtab = "string \<rightharpoonup> int"

definition SymbolTable :: symtab where
  "SymbolTable =
     [''SP'' \<mapsto> 0, ''LCL'' \<mapsto> 1, ''ARG'' \<mapsto> 2, ''THIS'' \<mapsto> 3, ''THAT'' \<mapsto> 4,
      ''R0'' \<mapsto> 0, ''R1'' \<mapsto> 1, ''R2'' \<mapsto> 2, ''R3'' \<mapsto> 3, ''R4'' \<mapsto> 4, ''R5'' \<mapsto> 5,
      ''R6'' \<mapsto> 6, ''R7'' \<mapsto> 7, ''R8'' \<mapsto> 8, ''R9'' \<mapsto> 9, ''R10'' \<mapsto> 10,
      ''R11'' \<mapsto> 11, ''R12'' \<mapsto> 12, ''R13'' \<mapsto> 13, ''R14'' \<mapsto> 14, ''R15'' \<mapsto> 15,
      ''SCREEN'' \<mapsto> 16384, ''KBD'' \<mapsto> 24576]"

definition contains :: "symtab \<Rightarrow> string \<Rightarrow> bool" where
  "contains symbolMap s = (symbolMap s \<noteq> None)"

text \<open>\<^verbatim>\<open>symbolMap[s]\<close>: 0 for a name that is absent.\<close>

definition getAddress :: "symtab \<Rightarrow> string \<Rightarrow> int" where
  "getAddress symbolMap s = (case symbolMap s of None \<Rightarrow> 0 | Some a \<Rightarrow> a)"

definition addEntry :: "symtab \<Rightarrow> string \<Rightarrow> int \<Rightarrow> symtab" where
  "addEntry symbolMap s a = symbolMap(s \<mapsto> a)"

subsection \<open>Class Parser\<close>

text \<open>
  The parser's state is its current line; every method is a function of that line.
  \<^verbatim>\<open>advance\<close> reads the next line and trims it. Positions are \<^verbatim>\<open>size_t\<close>:
  \<^verbatim>\<open>npos + 1\<close> wraps to 0, and a count that wraps below 0 (\<^verbatim>\<open>0 - 1\<close>,
  \<^verbatim>\<open>npos - 1\<close>, a semicolon before the equals sign) is larger than any string, so
  that \<^verbatim>\<open>substr\<close> takes the rest of the line. Every \<^verbatim>\<open>substr\<close> of the code
  starts at a position no greater than the size of the line, so none throws.
\<close>

datatype itype = A_INSTRUCTION | C_INSTRUCTION | L_INSTRUCTION

definition advance :: "string \<Rightarrow> string" where
  "advance raw = trim raw"

definition instructionType :: "string \<Rightarrow> itype" where
  "instructionType line =
     (if find_chr CHR ''@'' line \<noteq> None then A_INSTRUCTION
      else if find_chr CHR ''('' line \<noteq> None \<and> find_chr CHR '')'' line \<noteq> None
        then L_INSTRUCTION
      else C_INSTRUCTION)"

definition symbol :: "string \<Rightarrow> string" where
  "symbol line =
     (case find_chr CHR ''@'' line of
        Some i \<Rightarrow> drop (i + 1) line
      | None \<Rightarrow>
          (let start = (case find_chr CHR ''('' line of None \<Rightarrow> 0 | Some i \<Rightarrow> i + 1) in
           case find_chr CHR '')'' line of
             Some (Suc k) \<Rightarrow> take k (drop start line)
           | _ \<Rightarrow> drop start line))"

definition Parser_dest :: "string \<Rightarrow> string" where
  "Parser_dest line =
     (case find_chr CHR ''='' line of None \<Rightarrow> ''null'' | Some e \<Rightarrow> take e line)"

definition Parser_comp :: "string \<Rightarrow> string" where
  "Parser_comp line =
     (case find_chr CHR ''='' line of
        None \<Rightarrow> (case find_chr CHR '';'' line of None \<Rightarrow> line | Some j \<Rightarrow> take j line)
      | Some e \<Rightarrow>
          (case find_chr CHR '';'' line of
             None \<Rightarrow> drop (e + 1) line
           | Some j \<Rightarrow>
               if e < j then take (j - e - 1) (drop (e + 1) line) else drop (e + 1) line))"

definition Parser_jump :: "string \<Rightarrow> string" where
  "Parser_jump line =
     (case find_chr CHR '';'' line of None \<Rightarrow> ''null'' | Some j \<Rightarrow> drop (j + 1) line)"

subsection \<open>The three passes of main\<close>

text \<open>
  Each pass reads every line: \<^verbatim>\<open>advance\<close>, then
  \<^verbatim>\<open>if (line.empty() || line.find("//") != -1) continue;\<close>
\<close>

definition ignored :: "string \<Rightarrow> bool" where
  "ignored line = (line = [] \<or> find_str ''//'' line \<noteq> None)"

text \<open>Pass 1: the state is the symbol table and \<^verbatim>\<open>address\<close>, the next instruction address.\<close>

definition pass1_step :: "symtab \<times> int \<Rightarrow> string \<Rightarrow> symtab \<times> int" where
  "pass1_step st raw =
     (let symbolMap = fst st; address = snd st; line = advance raw in
      if ignored line then (symbolMap, address)
      else if instructionType line = L_INSTRUCTION then
        (let sym = symbol line in
         if \<not> contains symbolMap sym then (addEntry symbolMap sym address, address)
         else (symbolMap, address))
      else (symbolMap, address + 1))"

definition pass1 :: "string list \<Rightarrow> symtab \<times> int" where
  "pass1 prog = foldl pass1_step (SymbolTable, 0) prog"

text \<open>Pass 2: \<^verbatim>\<open>address\<close> is now the next variable address.\<close>

definition pass2_step :: "symtab \<times> int \<Rightarrow> string \<Rightarrow> symtab \<times> int" where
  "pass2_step st raw =
     (let symbolMap = fst st; address = snd st; line = advance raw in
      if ignored line then (symbolMap, address)
      else if instructionType line = A_INSTRUCTION then
        (let sym = symbol line in
         if \<not> contains symbolMap sym then
           (if AllisNum sym then (addEntry symbolMap sym (stonum sym), address)
            else (addEntry symbolMap sym address, address + 1))
         else (symbolMap, address))
      else (symbolMap, address))"

definition pass2 :: "symtab \<Rightarrow> string list \<Rightarrow> symtab \<times> int" where
  "pass2 symbolMap prog = foldl pass2_step (symbolMap, 16) prog"

text \<open>
  Pass 3. \<^verbatim>\<open>to_string((address >> i) & 1)\<close> prints a value that is 0 or 1;
  \<open>drop_bit\<close> on \<open>int\<close> is the arithmetic shift.
\<close>

definition to_string :: "int \<Rightarrow> string" where
  "to_string v = (if v = 0 then ''0'' else ''1'')"

definition encodeA :: "int \<Rightarrow> string" where
  "encodeA address =
     ''0'' @ foldl (\<lambda>binaryCode i. to_string (drop_bit i address AND 1) @ binaryCode)
               [] [0..<15]"

definition encodeC :: "string \<Rightarrow> string" where
  "encodeC line =
     (let dest = Parser_dest line; comp = Parser_comp line; jump = Parser_jump line in
      ''111'' @ Code_comp comp @ Code_dest dest @ Code_jump jump)"

text \<open>The binary code of one line; the empty string when nothing is written.\<close>

definition binaryCode :: "symtab \<Rightarrow> string \<Rightarrow> string" where
  "binaryCode symbolMap raw =
     (let line = advance raw in
      if ignored line then []
      else if instructionType line = A_INSTRUCTION then
        encodeA (getAddress symbolMap (symbol line))
      else if instructionType line = C_INSTRUCTION then encodeC line
      else [])"

definition pass3_step :: "symtab \<Rightarrow> string list \<Rightarrow> string \<Rightarrow> string list" where
  "pass3_step symbolMap out raw =
     (let b = binaryCode symbolMap raw in if b \<noteq> [] then out @ [b] else out)"

definition pass3 :: "symtab \<Rightarrow> string list \<Rightarrow> string list" where
  "pass3 symbolMap prog = foldl (pass3_step symbolMap) [] prog"

text \<open>The symbol table after the first two passes, and the lines written by the third.\<close>

definition symbols :: "string list \<Rightarrow> symtab" where
  "symbols prog = fst (pass2 (fst (pass1 prog)) prog)"

definition main :: "string list \<Rightarrow> string list" where
  "main prog = pass3 (symbols prog) prog"

subsection \<open>Notions of the specification\<close>

text \<open>
  The register form of a computation mnemonic: the memory operand \<open>M\<close> replaced by
  the register \<open>A\<close>, as the specification pairs \<open>D+M\<close> with \<open>D+A\<close>.
\<close>

definition register_form :: "string \<Rightarrow> string" where
  "register_form c = map (\<lambda>x. if x = CHR ''M'' then CHR ''A'' else x) c"

text \<open>
  The computation table of the specification: its eighteen mnemonics, in register form,
  each with its six-bit code.
\<close>

definition comp_codes :: "(string \<times> string) list" where
  "comp_codes =
     [(''0'', ''101010''), (''D+1'', ''011111''), (''D-A'', ''010011''),
      (''1'', ''111111''), (''A+1'', ''110111''), (''A-D'', ''000111''),
      (''-1'', ''111010''), (''D-1'', ''001110''), (''D&A'', ''000000''),
      (''D'', ''001100''), (''A-1'', ''110010''), (''D|A'', ''010101''),
      (''A'', ''110000''), (''D+A'', ''000010''), (''!D'', ''001101''),
      (''-D'', ''001111''), (''!A'', ''110001''), (''-A'', ''110011'')]"

text \<open>
  The memory form of a mnemonic has the memory operand \<open>M\<close> in place of the
  register \<open>A\<close>. The valid computation mnemonics are those of the table and the
  memory forms of those among them that name \<open>A\<close>.
\<close>

definition memory_form :: "string \<Rightarrow> string" where
  "memory_form c = map (\<lambda>x. if x = CHR ''A'' then CHR ''M'' else x) c"

definition memory_mnemonics :: "string list" where
  "memory_mnemonics =
     map memory_form (filter (\<lambda>c. CHR ''A'' \<in> set c) (map fst comp_codes))"

definition valid_comp :: "string list" where
  "valid_comp = map fst comp_codes @ memory_mnemonics"

text \<open>
  A string of binary digits read as an unsigned number, most significant digit first.
\<close>

definition bin_value :: "string \<Rightarrow> int" where
  "bin_value s = foldl (\<lambda>acc c. 2 * acc + (if c = CHR ''1'' then 1 else 0)) 0 s"

text \<open>The digit that prints a bit.\<close>

definition bit_char :: "bool \<Rightarrow> char" where
  "bit_char b = (if b then CHR ''1'' else CHR ''0'')"

text \<open>A string of decimal digits read as a number.\<close>

definition dec_value :: "string \<Rightarrow> int" where
  "dec_value s = foldl (\<lambda>acc c. 10 * acc + (of_char c - 48)) 0 s"

text \<open>
  The kinds of source line. A line that is not ignored is a label declaration, an
  address instruction or a computation instruction; an instruction is a line of the
  last two kinds.
\<close>

definition is_label :: "string \<Rightarrow> bool" where
  "is_label raw =
     (\<not> ignored (advance raw) \<and> instructionType (advance raw) = L_INSTRUCTION)"

definition is_address :: "string \<Rightarrow> bool" where
  "is_address raw =
     (\<not> ignored (advance raw) \<and> instructionType (advance raw) = A_INSTRUCTION)"

definition is_computation :: "string \<Rightarrow> bool" where
  "is_computation raw =
     (\<not> ignored (advance raw) \<and> instructionType (advance raw) = C_INSTRUCTION)"

definition is_instruction :: "string \<Rightarrow> bool" where
  "is_instruction raw = (is_address raw \<or> is_computation raw)"

text \<open>The symbol that a label declaration or an address instruction names.\<close>

definition line_symbol :: "string \<Rightarrow> string" where
  "line_symbol raw = symbol (advance raw)"

text \<open>The number of instructions among the first \<open>i\<close> lines of a program.\<close>

definition instructions_before :: "nat \<Rightarrow> string list \<Rightarrow> nat" where
  "instructions_before i prog = length (filter is_instruction (take i prog))"

text \<open>
  Whether a program declares a label of a given name, and the index of the first line
  that does (the length of the program when none does).
\<close>

definition declared :: "string \<Rightarrow> string list \<Rightarrow> bool" where
  "declared s prog = list_ex (\<lambda>raw. is_label raw \<and> line_symbol raw = s) prog"

definition first_declaration :: "string \<Rightarrow> string list \<Rightarrow> nat" where
  "first_declaration s prog =
     length (takeWhile (\<lambda>raw. \<not> (is_label raw \<and> line_symbol raw = s)) prog)"

text \<open>The symbols of the address instructions of a program, in source order.\<close>

definition a_symbols :: "string list \<Rightarrow> string list" where
  "a_symbols prog = map line_symbol (filter is_address prog)"

text \<open>A list without its repetitions: every element once, at its first occurrence.\<close>

fun first_occurrences :: "'a list \<Rightarrow> 'a list" where
  "first_occurrences [] = []"
| "first_occurrences (x # xs) = x # first_occurrences (filter (\<lambda>y. y \<noteq> x) xs)"

text \<open>
  The variables of a program, given the symbol table that pass 1 leaves: the distinct
  symbols of its address instructions that the table does not hold and that are not
  all digits, in the order of their first occurrence.
\<close>

definition variables :: "symtab \<Rightarrow> string list \<Rightarrow> string list" where
  "variables symbolMap prog =
     first_occurrences
       (filter (\<lambda>s. symbolMap s = None \<and> \<not> AllisNum s) (a_symbols prog))"

text \<open>The variables of a program: those left to pass 2 by the table of pass 1.\<close>

definition program_variables :: "string list \<Rightarrow> string list" where
  "program_variables prog = variables (fst (pass1 prog)) prog"

section \<open>Properties of the string primitives\<close>

lemma find_chr_None_iff: "find_chr c s = None \<longleftrightarrow> c \<notin> set s"
  by (induction s) auto

lemma find_chr_Some_split:
  "find_chr c s = Some i \<Longrightarrow> \<exists>u v. s = u @ c # v \<and> c \<notin> set u \<and> length u = i"
proof (induction s arbitrary: i)
  case Nil
  then show ?case by simp
next
  case (Cons x xs)
  show ?case
  proof (cases "x = c")
    case True
    with Cons.prems have "i = 0" by simp
    with True show ?thesis by (intro exI [of _ "[]"] exI [of _ xs]) simp
  next
    case False
    with Cons.prems obtain j where j: "find_chr c xs = Some j" "i = Suc j"
      by auto
    from Cons.IH [OF j(1)] obtain u v where "xs = u @ c # v" "c \<notin> set u" "length u = j"
      by blast
    with False j(2) show ?thesis
      by (intro exI [of _ "x # u"] exI [of _ v]) simp
  qed
qed

lemma find_chr_append_found: "c \<notin> set u \<Longrightarrow> find_chr c (u @ c # v) = Some (length u)"
  by (induction u) auto

lemma filter_absent: "c \<notin> set u \<Longrightarrow> filter (\<lambda>x. x \<noteq> c) u = u"
  by (induction u) auto

lemma erase1_middle: "erase1 (length a) (a @ x # b) = a @ b"
  by (simp add: erase1_def)

lemma trim_loop_filter:
  "trim_loop index s = take index s @ filter (\<lambda>c. c \<noteq> CHR '' '') (drop index s)"
proof (induction index s rule: trim_loop.induct)
  case (1 index s)
  show ?case
  proof (cases "find_from CHR '' '' index s")
    case None
    then have "CHR '' '' \<notin> set (drop index s)"
      by (simp add: find_from_def find_chr_None_iff)
    then have "filter (\<lambda>c. c \<noteq> CHR '' '') (drop index s) = drop index s"
      by (rule filter_absent)
    with None show ?thesis
      by (subst trim_loop.simps) simp
  next
    case (Some i)
    then obtain j where j: "find_chr CHR '' '' (drop index s) = Some j" "i = j + index"
      by (auto simp: find_from_def)
    from find_chr_Some_split [OF j(1)] obtain u v
      where uv: "drop index s = u @ CHR '' '' # v" "CHR '' '' \<notin> set u" "length u = j"
      by blast
    define w where "w = take index s @ u"
    have s: "s = w @ CHR '' '' # v"
      using uv(1) unfolding w_def by (metis append_take_drop_id append.assoc)
    have le: "index \<le> length s"
      using uv(1) by (metis drop_all list.discI append_is_Nil_conv nat_le_linear)
    have i: "i = length w"
      using j(2) uv(3) le by (simp add: w_def)
    have "erase1 i (w @ CHR '' '' # v) = w @ v"
      unfolding i by (rule erase1_middle)
    with s have er: "erase1 i s = w @ v"
      by simp
    have "trim_loop index s = trim_loop i (erase1 i s)"
      using Some by (subst trim_loop.simps) simp
    also have "\<dots> = take i (erase1 i s) @ filter (\<lambda>c. c \<noteq> CHR '' '') (drop i (erase1 i s))"
      by (rule "1.IH" [OF Some])
    also have "\<dots> = w @ filter (\<lambda>c. c \<noteq> CHR '' '') v"
      using er unfolding i by simp
    also have "\<dots> = take index s @ filter (\<lambda>c. c \<noteq> CHR '' '') (drop index s)"
      using uv(2) by (simp add: uv(1) w_def filter_absent)
    finally show ?thesis .
  qed
qed

lemma trim_filter: "trim s = filter (\<lambda>c. c \<noteq> CHR '' '') s"
  by (simp add: trim_def trim_loop_filter del: trim_loop.simps)

section \<open>The encoding tables\<close>

lemma dom_compMap:
  "dom compMap =
     {''0'', ''1'', ''-1'', ''D'', ''A'', ''M'', ''!D'', ''!A'', ''!M'', ''-D'', ''-A'', ''-M'',
      ''D+1'', ''A+1'', ''M+1'', ''D-1'', ''A-1'', ''M-1'', ''D+A'', ''D+M'', ''D-A'', ''D-M'',
      ''A-D'', ''M-D'', ''D&A'', ''D&M'', ''D|A'', ''D|M''}"
  unfolding compMap_def by (simp add: insert_commute)

lemma Code_comp_scan:
  "Code_comp c = (if CHR ''M'' \<in> set c then CHR ''1'' else CHR ''0'') # index_str compMap c"
  by (simp add: Code_comp_def find_chr_None_iff)

lemma compMap_register_form:
  "c \<in> dom compMap \<Longrightarrow>
     compMap (register_form c) = compMap c \<and> length (index_str compMap c) = 6"
  unfolding dom_compMap
  by (elim insertE emptyE) (simp_all add: compMap_def register_form_def index_str_def)

lemma memory_mnemonics_list:
  "memory_mnemonics =
     [''D-M'', ''M+1'', ''M-D'', ''D&M'', ''M-1'', ''D|M'', ''M'', ''D+M'', ''!M'', ''-M'']"
  by (simp add: memory_mnemonics_def comp_codes_def memory_form_def)

lemma set_valid_comp:
  "set valid_comp =
     {''0'', ''1'', ''-1'', ''D'', ''A'', ''M'', ''!D'', ''!A'', ''!M'', ''-D'', ''-A'', ''-M'',
      ''D+1'', ''A+1'', ''M+1'', ''D-1'', ''A-1'', ''M-1'', ''D+A'', ''D+M'', ''D-A'', ''D-M'',
      ''A-D'', ''M-D'', ''D&A'', ''D&M'', ''D|A'', ''D|M''}"
  unfolding valid_comp_def memory_mnemonics_list by (simp add: comp_codes_def insert_commute)

lemma valid_comp_codes:
  "c \<in> set valid_comp \<Longrightarrow>
     compMap c \<noteq> None \<and> map_of comp_codes (register_form c) = Some (index_str compMap c)"
  unfolding set_valid_comp
  by (elim insertE emptyE)
     (simp_all add: compMap_def comp_codes_def register_form_def index_str_def)

text \<open>
  The tables hold every code that the specification lists for the computation and jump
  mnemonics, and for the destinations up to the two-register ones.
\<close>

lemma listed_comp_codes:
  "map (index_str compMap)
     [''0'', ''1'', ''-1'', ''D'', ''A'', ''-D'', ''D+1'', ''A+1'', ''D-1'', ''A-1'', ''D+A'',
      ''!A'', ''D-A'', ''A-D'', ''D&A'', ''D|A'', ''!D'', ''-A''] =
     [''101010'', ''111111'', ''111010'', ''001100'', ''110000'', ''001111'', ''011111'',
      ''110111'', ''001110'', ''110010'', ''000010'', ''110001'', ''010011'', ''000111'',
      ''000000'', ''010101'', ''001101'', ''110011'']"
  by (simp add: compMap_def index_str_def)

lemma listed_jump_codes:
  "map Code_jump [''null'', ''JGT'', ''JEQ'', ''JGE'', ''JLT'', ''JNE'', ''JLE'', ''JMP''] =
     [''000'', ''001'', ''010'', ''011'', ''100'', ''101'', ''110'', ''111'']"
  by (simp add: Code_jump_def jumpMap_def index_str_def)

lemma listed_dest_codes:
  "map Code_dest [''null'', ''M'', ''D'', ''MD'', ''A'', ''AM'', ''AD''] =
     [''000'', ''001'', ''010'', ''011'', ''100'', ''101'', ''110'']"
  by (simp add: Code_dest_def destMap_def index_str_def)

text \<open>
  C3. The specification lists the three-register destination as \<open>AMD\<close> with code
  \<open>111\<close>. The destination table of the code holds that code under \<open>ADM\<close> only, so
  looking \<open>AMD\<close> up yields the empty string, and the line written for
  \<open>AMD=D+1\<close> has thirteen characters: the three destination bits are missing.
\<close>

theorem dest_AMD_absent:
  "Code_dest ''AMD'' = [] \<and> Code_dest ''ADM'' = ''111'' \<and>
   main [''AMD=D+1''] = [''1110011111000''] \<and>
   main [''ADM=D+1''] = [''1110011111111000'']"
  by code_simp

text \<open>
  C5. The computation field is the source-select bit followed by the table's code. The
  bit is \<open>1\<close> exactly when the mnemonic contains \<open>M\<close>, whatever the table holds (the
  first conjunct holds for every string). Every valid mnemonic, in register or in memory
  form, is a key of the table of the code, and the table has no other key; its field has
  seven characters, and the six that follow the bit are the code that the specification
  lists for the register form of the mnemonic, so that a memory form and its register
  form share them.
\<close>

theorem comp_source_select_bit:
  "Code_comp c = (if CHR ''M'' \<in> set c then CHR ''1'' else CHR ''0'') # index_str compMap c \<and>
   (c \<in> set valid_comp \<longrightarrow>
      compMap c \<noteq> None \<and>
      length (Code_comp c) = 7 \<and>
      map_of comp_codes (register_form c) = Some (tl (Code_comp c)) \<and>
      tl (Code_comp c) = tl (Code_comp (register_form c))) \<and>
   dom compMap = set valid_comp"
proof -
  have scan: "Code_comp c =
      (if CHR ''M'' \<in> set c then CHR ''1'' else CHR ''0'') # index_str compMap c"
    by (rule Code_comp_scan)
  have keys: "dom compMap = set valid_comp"
    by (simp only: dom_compMap set_valid_comp)
  have "compMap c \<noteq> None \<and> length (Code_comp c) = 7 \<and>
      map_of comp_codes (register_form c) = Some (tl (Code_comp c)) \<and>
      tl (Code_comp c) = tl (Code_comp (register_form c))" if c: "c \<in> set valid_comp"
  proof -
    from valid_comp_codes [OF c]
    have key: "compMap c \<noteq> None"
      and code: "map_of comp_codes (register_form c) = Some (index_str compMap c)"
      by simp_all
    from key have dom: "c \<in> dom compMap"
      by (simp add: dom_def)
    from compMap_register_form [OF dom]
    have eq: "compMap (register_form c) = compMap c"
      and len: "length (index_str compMap c) = 6"
      by simp_all
    have "index_str compMap (register_form c) = index_str compMap c"
      by (simp add: index_str_def eq)
    with key code len show ?thesis
      by (simp add: Code_comp_scan)
  qed
  with scan keys show ?thesis by blast
qed

theorem comp_source_select_bit_witness:
  "''D+M'' \<in> set valid_comp \<and> register_form ''D+M'' = ''D+A'' \<and>
   map_of comp_codes ''D+A'' = Some ''000010'' \<and>
   Code_comp ''D+M'' = ''1000010'' \<and> Code_comp ''D+A'' = ''0000010''"
proof -
  have v: "''D+M'' \<in> set valid_comp" "''D+A'' \<in> set valid_comp"
    by (simp_all add: set_valid_comp)
  have r: "register_form ''D+M'' = ''D+A''" "register_form ''D+A'' = ''D+A''"
    by (simp_all add: register_form_def)
  have t: "map_of comp_codes ''D+A'' = Some ''000010''"
    by (simp add: comp_codes_def)
  from comp_source_select_bit [of "''D+M''"] v(1)
  have m: "Code_comp ''D+M'' = CHR ''1'' # index_str compMap ''D+M''"
    "map_of comp_codes (register_form ''D+M'') = Some (tl (Code_comp ''D+M''))"
    by simp_all
  from comp_source_select_bit [of "''D+A''"] v(2)
  have a: "Code_comp ''D+A'' = CHR ''0'' # index_str compMap ''D+A''"
    "map_of comp_codes (register_form ''D+A'') = Some (tl (Code_comp ''D+A''))"
    by simp_all
  from m(2) have "tl (Code_comp ''D+M'') = ''000010''"
    unfolding r t by simp
  with m(1) have 1: "Code_comp ''D+M'' = ''1000010''"
    by simp
  from a(2) have "tl (Code_comp ''D+A'') = ''000010''"
    unfolding r t by simp
  with a(1) have 2: "Code_comp ''D+A'' = ''0000010''"
    by simp
  from v(1) r(1) t 1 2 show ?thesis
    by simp
qed

text \<open>
  C8 (as amended). The destination table is keyed by fixed mnemonics, not by sets of
  registers: \<open>MD\<close> and \<open>DM\<close> are both keys and share the code \<open>011\<close>, while the
  other two-register destinations are keys in one order only, \<open>AM\<close> and \<open>AD\<close>,
  and the three-register destination is a key as \<open>ADM\<close>. The orderings \<open>MA\<close>,
  \<open>DA\<close>, \<open>DAM\<close>, \<open>DMA\<close>, \<open>MAD\<close> and \<open>MDA\<close> are no keys: their lookup
  yields the empty string.
\<close>

theorem dest_keyed_by_mnemonic:
  "Code_dest ''MD'' = ''011'' \<and> Code_dest ''DM'' = ''011'' \<and>
   Code_dest ''AM'' = ''101'' \<and> Code_dest ''AD'' = ''110'' \<and> Code_dest ''ADM'' = ''111'' \<and>
   Code_dest ''MA'' = [] \<and> Code_dest ''DA'' = [] \<and>
   Code_dest ''DAM'' = [] \<and> Code_dest ''DMA'' = [] \<and>
   Code_dest ''MAD'' = [] \<and> Code_dest ''MDA'' = []"
  by (simp add: Code_dest_def destMap_def index_str_def)

text \<open>
  C8 as stated fails: \<open>AM\<close> and \<open>MA\<close> list the same registers and do not get the
  same code.
\<close>

theorem dest_order_counterexample:
  "Code_dest ''AM'' = ''101'' \<and> Code_dest ''MA'' \<noteq> ''101''"
  by (simp add: Code_dest_def destMap_def index_str_def)

section \<open>Address instructions\<close>

lemma to_string_bit: "to_string (drop_bit i a AND 1) = [bit_char (bit a i)]"
  by (simp add: to_string_def bit_char_def and_one_eq bit_iff_odd_drop_bit even_iff_mod_2_eq_zero)

lemma prepend_loop:
  "foldl (\<lambda>b i. to_string (drop_bit i a AND 1) @ b) acc xs =
     map (\<lambda>i. bit_char (bit a i)) (rev xs) @ acc"
  by (induction xs arbitrary: acc) (simp_all add: to_string_bit)

lemma encodeA_bits:
  "encodeA a = CHR ''0'' # map (\<lambda>i. bit_char (bit a i)) (rev [0..<15])"
  by (simp add: encodeA_def prepend_loop del: upt_Suc)

lemma bin_value_acc:
  "foldl (\<lambda>acc c. 2 * acc + (if c = CHR ''1'' then 1 else 0)) acc s =
     acc * 2 ^ length s + bin_value s"
proof (induction s arbitrary: acc)
  case Nil
  show ?case by (simp add: bin_value_def)
next
  case (Cons c s)
  let ?d = "if c = CHR ''1'' then 1 else (0::int)"
  have "bin_value (c # s) = ?d * 2 ^ length s + bin_value s"
    unfolding bin_value_def [of "c # s"] foldl_Cons by (simp add: Cons.IH)
  moreover have "foldl (\<lambda>acc c. 2 * acc + (if c = CHR ''1'' then 1 else 0)) acc (c # s) =
      (2 * acc + ?d) * 2 ^ length s + bin_value s"
    by (simp add: Cons.IH)
  ultimately show ?case
    by (simp add: algebra_simps)
qed

lemma bin_value_Cons:
  "bin_value (c # s) = (if c = CHR ''1'' then 1 else 0) * 2 ^ length s + bin_value s"
  unfolding bin_value_def foldl_Cons
  by (subst bin_value_acc) (simp add: bin_value_def)

lemma bin_value_bits:
  "bin_value (map (\<lambda>i. bit_char (bit a i)) (rev [0..<n])) = take_bit n a"
proof (induction n)
  case 0
  show ?case by (simp add: bin_value_def)
next
  case (Suc n)
  show ?case
    using Suc.IH
    by (simp add: bin_value_Cons bit_char_def take_bit_Suc_from_most)
qed

text \<open>
  C4. For an address from 0 to 32767 the line of an address instruction has sixteen
  characters, each \<open>0\<close> or \<open>1\<close>; the first is \<open>0\<close>, the fifteen that follow are
  the bits 14 down to 0 of the address, and read as an unsigned binary number they give
  the address back.
\<close>

theorem encodeA_round_trip:
  assumes "0 \<le> a" and "a \<le> 32767"
  shows "length (encodeA a) = 16 \<and>
         set (encodeA a) \<subseteq> {CHR ''0'', CHR ''1''} \<and>
         hd (encodeA a) = CHR ''0'' \<and>
         (\<forall>k<15. encodeA a ! (k + 1) = (if bit a (14 - k) then CHR ''1'' else CHR ''0'')) \<and>
         bin_value (tl (encodeA a)) = a"
proof -
  have len: "length (encodeA a) = 16"
    by (simp add: encodeA_bits del: upt_Suc)
  have chars: "set (encodeA a) \<subseteq> {CHR ''0'', CHR ''1''}"
    by (auto simp: encodeA_bits bit_char_def simp del: upt_Suc)
  have first: "hd (encodeA a) = CHR ''0''"
    by (simp add: encodeA_bits del: upt_Suc)
  have nth: "encodeA a ! (k + 1) = (if bit a (14 - k) then CHR ''1'' else CHR ''0'')"
    if "k < 15" for k
    using that by (simp add: encodeA_bits bit_char_def rev_nth del: upt_Suc)
  have "bin_value (tl (encodeA a)) = take_bit 15 a"
    by (simp add: encodeA_bits bin_value_bits del: upt_Suc)
  also have "\<dots> = a"
    using assms by (simp add: take_bit_int_eq_self)
  finally show ?thesis
    using len chars first nth by blast
qed

theorem encodeA_round_trip_witness:
  "encodeA 21845 = ''0101010101010101'' \<and> bin_value ''101010101010101'' = 21845"
proof -
  have e: "encodeA 21845 = ''0101010101010101''" by code_simp
  from encodeA_round_trip [of 21845] e show ?thesis by simp
qed

section \<open>Numeric literals\<close>

lemma AllisNum_Cons:
  "AllisNum (c # cs) \<longleftrightarrow> 48 \<le> char_int c \<and> char_int c \<le> 57 \<and> AllisNum cs"
  by (auto simp: Let_def)

lemma of_char_less_256: "(of_char c :: int) < 256"
proof -
  have "(of_char c :: int) mod 256 < 256" by (rule pos_mod_bound) simp
  then show ?thesis by simp
qed

lemma digit_char_int:
  "48 \<le> char_int c \<Longrightarrow> char_int c \<le> 57 \<Longrightarrow> char_int c = of_char c"
  using of_char_less_256 [of c] by (simp add: char_int_def split: if_splits)

lemma dec_value_acc:
  "foldl (\<lambda>acc c. 10 * acc + (of_char c - 48)) acc s = acc * 10 ^ length s + dec_value s"
proof (induction s arbitrary: acc)
  case Nil
  show ?case by (simp add: dec_value_def)
next
  case (Cons c s)
  let ?d = "of_char c - 48"
  have "dec_value (c # s) = ?d * 10 ^ length s + dec_value s"
    unfolding dec_value_def [of "c # s"] foldl_Cons by (simp add: Cons.IH)
  moreover have "foldl (\<lambda>acc c. 10 * acc + (of_char c - 48)) acc (c # s) =
      (10 * acc + ?d) * 10 ^ length s + dec_value s"
    by (simp add: Cons.IH)
  ultimately show ?case
    by (simp add: algebra_simps)
qed

lemma dec_value_Cons:
  "dec_value (c # s) = (of_char c - 48) * 10 ^ length s + dec_value s"
  unfolding dec_value_def [of "c # s"] foldl_Cons
  by (subst dec_value_acc) simp

lemma dec_value_nonneg: "AllisNum s \<Longrightarrow> 0 \<le> dec_value s"
proof (induction s)
  case Nil
  show ?case by (simp add: dec_value_def)
next
  case (Cons c s)
  from Cons.prems(1) [unfolded AllisNum_Cons]
  have d: "48 \<le> char_int c" "char_int c \<le> 57" and s: "AllisNum s"
    by simp_all
  from d have "(0::int) \<le> of_char c - 48"
    using digit_char_int [OF d] by simp
  then have "(0::int) \<le> (of_char c - 48) * 10 ^ length s"
    by simp
  with Cons.IH [OF s] show ?case
    by (simp add: dec_value_Cons)
qed

lemma stonum_loop_value:
  "AllisNum s \<Longrightarrow> 0 \<le> num \<Longrightarrow> num \<le> 32767 \<Longrightarrow>
     stonum_loop num s =
       (if num * 10 ^ length s + dec_value s > 32767 then 0
        else num * 10 ^ length s + dec_value s)"
proof (induction s arbitrary: num)
  case Nil
  then show ?case by (simp add: dec_value_def)
next
  case (Cons c s)
  from Cons.prems(1) [unfolded AllisNum_Cons]
  have d: "48 \<le> char_int c" "char_int c \<le> 57" and s: "AllisNum s"
    by simp_all
  define num' where "num' = num * 10 + char_int c - 48"
  have num': "num' = num * 10 + (of_char c - 48)"
    using digit_char_int [OF d] by (simp add: num'_def)
  have nonneg: "0 \<le> num'"
    using d Cons.prems(2) by (simp add: num'_def)
  have total: "num * 10 ^ length (c # s) + dec_value (c # s) = num' * 10 ^ length s + dec_value s"
    by (simp add: num' dec_value_Cons algebra_simps)
  show ?case
  proof (cases "num' > 32767")
    case True
    have "num' * 1 \<le> num' * 10 ^ length s"
      using nonneg by (intro mult_left_mono) simp_all
    then have "num' \<le> num' * 10 ^ length s"
      by simp
    with True dec_value_nonneg [OF s] have "num' * 10 ^ length s + dec_value s > 32767"
      by linarith
    with True show ?thesis
      unfolding total by (simp add: num'_def Let_def)
  next
    case False
    then have "stonum_loop num (c # s) = stonum_loop num' s"
      by (simp add: num'_def Let_def)
    moreover from False have "num' \<le> 32767" by simp
    ultimately show ?thesis
      using Cons.IH [OF s nonneg] unfolding total by simp
  qed
qed

lemma stonum_value:
  assumes "AllisNum s"
  shows "stonum s = (if length s > 5 \<or> dec_value s > 32767 then 0 else dec_value s)"
  using stonum_loop_value [OF assms, of 0] by (simp add: stonum_def)

lemma stonum_range:
  assumes "AllisNum s"
  shows "0 \<le> stonum s \<and> stonum s \<le> 32767"
  using dec_value_nonneg [OF assms] by (simp add: stonum_value [OF assms])

section \<open>Pass 1: labels\<close>

lemma line_kinds:
  "ignored (advance raw) \<or> is_label raw \<or> is_address raw \<or> is_computation raw"
  by (cases "instructionType (advance raw)")
     (auto simp: is_label_def is_address_def is_computation_def)

lemma pass1_step_ignored: "ignored (advance raw) \<Longrightarrow> pass1_step st raw = st"
  by (simp add: pass1_step_def Let_def)

lemma pass1_step_label:
  "is_label raw \<Longrightarrow>
     pass1_step st raw =
       (if fst st (line_symbol raw) = None then (fst st)(line_symbol raw \<mapsto> snd st) else fst st,
        snd st)"
  by (simp add: pass1_step_def is_label_def line_symbol_def contains_def addEntry_def Let_def)

lemma pass1_step_instruction:
  "is_instruction raw \<Longrightarrow> pass1_step st raw = (fst st, snd st + 1)"
  by (auto simp: pass1_step_def is_instruction_def is_address_def is_computation_def Let_def)

lemma not_label_and_instruction: "is_label raw \<Longrightarrow> \<not> is_instruction raw"
  by (auto simp: is_label_def is_instruction_def is_address_def is_computation_def)

lemma pass1_step_cases:
  obtains (ignored) "ignored (advance raw)" "pass1_step st raw = st"
  | (label) "is_label raw" "\<not> is_instruction raw"
      "pass1_step st raw =
         (if fst st (line_symbol raw) = None then (fst st)(line_symbol raw \<mapsto> snd st)
          else fst st, snd st)"
  | (instruction) "is_instruction raw" "\<not> is_label raw"
      "pass1_step st raw = (fst st, snd st + 1)"
  using line_kinds [of raw] pass1_step_ignored [of raw st] pass1_step_label [of raw st]
    pass1_step_instruction [of raw st] not_label_and_instruction [of raw]
  unfolding is_instruction_def by blast

lemma ignored_not_instruction: "ignored (advance raw) \<Longrightarrow> \<not> is_instruction raw"
  by (simp add: is_instruction_def is_address_def is_computation_def)

lemma ignored_not_label: "ignored (advance raw) \<Longrightarrow> \<not> is_label raw"
  by (simp add: is_label_def)

lemma pass1_counter:
  "snd (foldl pass1_step st prog) = snd st + int (length (filter is_instruction prog))"
proof (induction prog arbitrary: st)
  case Nil
  show ?case by simp
next
  case (Cons raw prog)
  show ?case
    by (cases raw st rule: pass1_step_cases)
       (simp_all add: Cons.IH ignored_not_instruction)
qed

lemma pass1_keeps:
  "fst st s = Some a \<Longrightarrow> fst (foldl pass1_step st prog) s = Some a"
proof (induction prog arbitrary: st)
  case Nil
  then show ?case by simp
next
  case (Cons raw prog)
  have "fst (pass1_step st raw) s = Some a"
    using Cons.prems by (cases raw st rule: pass1_step_cases) auto
  then show ?case
    by (simp add: Cons.IH)
qed

lemma pass1_undeclared:
  "fst st s = None \<Longrightarrow> \<forall>raw \<in> set prog. is_label raw \<longrightarrow> line_symbol raw \<noteq> s \<Longrightarrow>
     fst (foldl pass1_step st prog) s = None"
proof (induction prog arbitrary: st)
  case Nil
  then show ?case by simp
next
  case (Cons raw prog)
  have "fst (pass1_step st raw) s = None"
    using Cons.prems by (cases raw st rule: pass1_step_cases) auto
  with Cons.prems(2) show ?case
    by (simp add: Cons.IH)
qed

lemma pass1_first_declaration:
  assumes i: "i < length prog"
    and label: "is_label (prog ! i)"
    and fresh: "fst st (line_symbol (prog ! i)) = None"
    and first: "\<forall>j<i. is_label (prog ! j) \<longrightarrow> line_symbol (prog ! j) \<noteq> line_symbol (prog ! i)"
  shows "fst (foldl pass1_step st prog) (line_symbol (prog ! i)) =
           Some (snd st + int (instructions_before i prog))"
proof -
  let ?s = "line_symbol (prog ! i)"
  let ?pre = "take i prog"
  let ?st1 = "foldl pass1_step st ?pre"
  have split: "prog = ?pre @ prog ! i # drop (Suc i) prog"
    using i by (rule id_take_nth_drop)
  have "\<forall>raw \<in> set ?pre. is_label raw \<longrightarrow> line_symbol raw \<noteq> ?s"
    using first i by (auto simp: in_set_conv_nth)
  with fresh have none: "fst ?st1 ?s = None"
    by (rule pass1_undeclared)
  have count: "snd ?st1 = snd st + int (instructions_before i prog)"
    by (simp add: pass1_counter instructions_before_def)
  have "fst (pass1_step ?st1 (prog ! i)) ?s = Some (snd ?st1)"
    using none by (simp add: pass1_step_label [OF label])
  then have "fst (foldl pass1_step (pass1_step ?st1 (prog ! i)) (drop (Suc i) prog)) ?s =
      Some (snd ?st1)"
    by (rule pass1_keeps)
  moreover have "foldl pass1_step st prog =
      foldl pass1_step (pass1_step ?st1 (prog ! i)) (drop (Suc i) prog)"
    by (subst split) (simp only: foldl_append foldl_Cons)
  ultimately show ?thesis
    by (simp only: count)
qed

lemma first_declaration_le:
  assumes "i < length prog" and "is_label (prog ! i)" and "line_symbol (prog ! i) = s"
  shows "first_declaration s prog \<le> i"
proof (rule ccontr)
  let ?P = "\<lambda>raw. \<not> (is_label raw \<and> line_symbol raw = s)"
  assume "\<not> first_declaration s prog \<le> i"
  then have less: "i < length (takeWhile ?P prog)"
    by (simp add: first_declaration_def)
  then have "takeWhile ?P prog ! i \<in> set (takeWhile ?P prog)"
    by (rule nth_mem)
  then have "?P (takeWhile ?P prog ! i)"
    by (rule set_takeWhileD [THEN conjunct2])
  moreover have "takeWhile ?P prog ! i = prog ! i"
    using less by (rule takeWhile_nth)
  ultimately show False
    using assms(2,3) by simp
qed

lemma first_declaration_label:
  assumes "first_declaration s prog < length prog"
  shows "is_label (prog ! first_declaration s prog) \<and>
         line_symbol (prog ! first_declaration s prog) = s"
  using nth_length_takeWhile [of "\<lambda>raw. \<not> (is_label raw \<and> line_symbol raw = s)" prog] assms
  by (simp add: first_declaration_def)

lemma first_declaration_first:
  assumes "j < first_declaration s prog"
  shows "\<not> (is_label (prog ! j) \<and> line_symbol (prog ! j) = s)"
proof -
  let ?P = "\<lambda>raw. \<not> (is_label raw \<and> line_symbol raw = s)"
  from assms have less: "j < length (takeWhile ?P prog)"
    by (simp add: first_declaration_def)
  then have "takeWhile ?P prog ! j \<in> set (takeWhile ?P prog)"
    by (rule nth_mem)
  then have "?P (takeWhile ?P prog ! j)"
    by (rule set_takeWhileD [THEN conjunct2])
  moreover have "takeWhile ?P prog ! j = prog ! j"
    using less by (rule takeWhile_nth)
  ultimately show ?thesis by simp
qed

lemma pass1_declared:
  assumes "i < length prog" and "is_label (prog ! i)" and "line_symbol (prog ! i) = s"
  shows "fst (foldl pass1_step st prog) s =
           Some (case fst st s of
                   None \<Rightarrow> snd st + int (instructions_before (first_declaration s prog) prog)
                 | Some p \<Rightarrow> p)"
proof (cases "fst st s")
  case (Some p)
  then have "fst (foldl pass1_step st prog) s = Some p"
    by (rule pass1_keeps)
  with Some show ?thesis by simp
next
  case None
  let ?f = "first_declaration s prog"
  from first_declaration_le [OF assms] assms(1) have f: "?f < length prog"
    by simp
  from first_declaration_label [OF f]
  have lab: "is_label (prog ! ?f)" and name: "line_symbol (prog ! ?f) = s"
    by simp_all
  have first: "\<forall>j<?f. is_label (prog ! j) \<longrightarrow> line_symbol (prog ! j) \<noteq> line_symbol (prog ! ?f)"
    using first_declaration_first [of _ s prog] name by auto
  have fresh: "fst st (line_symbol (prog ! ?f)) = None"
    using None name by simp
  from pass1_first_declaration [OF f lab fresh first] None show ?thesis
    by (simp add: name)
qed

lemma declared_nth:
  "declared s prog \<longleftrightarrow> (\<exists>i<length prog. is_label (prog ! i) \<and> line_symbol (prog ! i) = s)"
  unfolding declared_def list_ex_iff by (metis in_set_conv_nth)

section \<open>Pass 2: variables and numeric literals\<close>

lemma pass2_step_address:
  "is_address raw \<Longrightarrow>
     pass2_step st raw =
       (if fst st (line_symbol raw) \<noteq> None then st
        else if AllisNum (line_symbol raw)
          then ((fst st)(line_symbol raw \<mapsto> stonum (line_symbol raw)), snd st)
        else ((fst st)(line_symbol raw \<mapsto> snd st), snd st + 1))"
  by (simp add: pass2_step_def is_address_def line_symbol_def contains_def addEntry_def Let_def)

lemma pass2_step_other: "\<not> is_address raw \<Longrightarrow> pass2_step st raw = st"
  by (auto simp: pass2_step_def is_address_def Let_def)

lemma pass2_step_keeps: "fst st s = Some a \<Longrightarrow> fst (pass2_step st raw) s = Some a"
  by (cases "is_address raw") (auto simp: pass2_step_address pass2_step_other)

lemma pass2_keeps:
  "fst st s = Some a \<Longrightarrow> fst (foldl pass2_step st prog) s = Some a"
proof (induction prog arbitrary: st)
  case Nil
  then show ?case by simp
next
  case (Cons raw prog)
  from Cons.prems have "fst (pass2_step st raw) s = Some a"
    by (rule pass2_step_keeps)
  then show ?case
    by (simp add: Cons.IH)
qed

lemma set_first_occurrences: "set (first_occurrences xs) = set xs"
  by (induction xs rule: first_occurrences.induct) auto

lemma distinct_first_occurrences: "distinct (first_occurrences xs)"
  by (induction xs rule: first_occurrences.induct) (auto simp: set_first_occurrences)

lemma a_symbols_Cons:
  "a_symbols (raw # prog) =
     (if is_address raw then line_symbol raw # a_symbols prog else a_symbols prog)"
  by (simp add: a_symbols_def)

lemma pass2_variables:
  "snd (foldl pass2_step st prog) = snd st + int (length (variables (fst st) prog)) \<and>
   (\<forall>k < length (variables (fst st) prog).
      fst (foldl pass2_step st prog) (variables (fst st) prog ! k) = Some (snd st + int k))"
proof (induction prog arbitrary: st)
  case Nil
  show ?case by (simp add: variables_def a_symbols_def)
next
  case (Cons raw prog)
  let ?s = "line_symbol raw"
  let ?P = "\<lambda>m x. m x = None \<and> \<not> AllisNum x"
  show ?case
  proof (cases "is_address raw")
    case False
    then have "pass2_step st raw = st" "variables (fst st) (raw # prog) = variables (fst st) prog"
      by (simp_all add: pass2_step_other variables_def a_symbols_Cons)
    with Cons.IH [of st] show ?thesis by simp
  next
    case True
    show ?thesis
    proof (cases "fst st ?s \<noteq> None")
      case bound: True
      then have "pass2_step st raw = st"
        "variables (fst st) (raw # prog) = variables (fst st) prog"
        using True by (auto simp: pass2_step_address variables_def a_symbols_Cons)
      with Cons.IH [of st] show ?thesis by simp
    next
      case free: False
      show ?thesis
      proof (cases "AllisNum ?s")
        case num: True
        let ?tab' = "(fst st)(?s \<mapsto> stonum ?s)"
        let ?st' = "(?tab', snd st)"
        have step: "pass2_step st raw = ?st'"
          using True free num by (simp add: pass2_step_address)
        have "filter (?P ?tab') (a_symbols prog) = filter (?P (fst st)) (a_symbols prog)"
          using num by (intro filter_cong) auto
        then have vs: "variables (fst st) (raw # prog) = variables ?tab' prog"
          using True num by (simp add: variables_def a_symbols_Cons)
        from Cons.IH [of ?st', unfolded fst_conv snd_conv] show ?thesis
          unfolding foldl_Cons step vs .
      next
        case var: False
        let ?tab' = "(fst st)(?s \<mapsto> snd st)"
        let ?st' = "(?tab', snd st + 1)"
        let ?vs = "variables ?tab' prog"
        have step: "pass2_step st raw = ?st'"
          using True free var by (simp add: pass2_step_address)
        have "filter (\<lambda>y. y \<noteq> ?s) (filter (?P (fst st)) (a_symbols prog)) =
            filter (?P ?tab') (a_symbols prog)"
          unfolding filter_filter by (intro filter_cong) auto
        then have vs: "variables (fst st) (raw # prog) = ?s # ?vs"
          using True free var by (simp add: variables_def a_symbols_Cons)
        have IH: "snd (foldl pass2_step ?st' prog) = snd st + 1 + int (length ?vs) \<and>
            (\<forall>k < length ?vs.
               fst (foldl pass2_step ?st' prog) (?vs ! k) = Some (snd st + 1 + int k))"
          using Cons.IH [of ?st'] unfolding fst_conv snd_conv .
        from IH have cnt: "snd (foldl pass2_step ?st' prog) = snd st + 1 + int (length ?vs)"
          by (rule conjunct1)
        from IH have tab: "\<And>k. k < length ?vs \<Longrightarrow>
            fst (foldl pass2_step ?st' prog) (?vs ! k) = Some (snd st + 1 + int k)"
          by blast
        have here: "fst (foldl pass2_step ?st' prog) ?s = Some (snd st)"
          by (rule pass2_keeps) simp
        have "fst (foldl pass2_step ?st' prog) ((?s # ?vs) ! k) = Some (snd st + int k)"
          if "k < length (?s # ?vs)" for k
          using that here tab by (cases k) simp_all
        with cnt show ?thesis
          unfolding vs foldl_Cons step by simp
      qed
    qed
  qed
qed

lemma pass2_numeric:
  "AllisNum s \<Longrightarrow> s \<in> set (a_symbols prog) \<Longrightarrow> fst st s = None \<Longrightarrow>
     fst (foldl pass2_step st prog) s = Some (stonum s)"
proof (induction prog arbitrary: st)
  case Nil
  then show ?case by (simp add: a_symbols_def)
next
  case (Cons raw prog)
  show ?case
  proof (cases "is_address raw \<and> line_symbol raw = s")
    case True
    with Cons.prems have "fst (pass2_step st raw) s = Some (stonum s)"
      by (auto simp: pass2_step_address)
    then show ?thesis
      unfolding foldl_Cons by (rule pass2_keeps)
  next
    case False
    with Cons.prems(2) have mem: "s \<in> set (a_symbols prog)"
      by (auto simp: a_symbols_Cons split: if_splits)
    from False Cons.prems(3) have "fst (pass2_step st raw) s = None"
      by (cases "is_address raw") (auto simp: pass2_step_address pass2_step_other)
    with Cons.IH [OF Cons.prems(1) mem] show ?thesis
      by simp
  qed
qed

lemma dom_SymbolTable:
  "dom SymbolTable =
     {''SP'', ''LCL'', ''ARG'', ''THIS'', ''THAT'', ''R0'', ''R1'', ''R2'', ''R3'', ''R4'',
      ''R5'', ''R6'', ''R7'', ''R8'', ''R9'', ''R10'', ''R11'', ''R12'', ''R13'', ''R14'',
      ''R15'', ''SCREEN'', ''KBD''}"
  unfolding SymbolTable_def by (simp add: insert_commute)

lemma predefined_not_numeric: "AllisNum s \<Longrightarrow> SymbolTable s = None"
proof (rule ccontr)
  assume num: "AllisNum s" and "SymbolTable s \<noteq> None"
  then have "s \<in> dom SymbolTable" by (simp add: dom_def)
  then show False
    using num unfolding dom_SymbolTable
    by (elim insertE emptyE) (simp_all add: char_int_def)
qed

lemma symbols_keeps: "fst (pass1 prog) s = Some a \<Longrightarrow> symbols prog s = Some a"
  unfolding symbols_def pass2_def by (rule pass2_keeps) simp

lemma binaryCode_address:
  "is_address raw \<Longrightarrow> binaryCode tab raw = encodeA (getAddress tab (line_symbol raw))"
  by (simp add: binaryCode_def is_address_def line_symbol_def Let_def)

section \<open>Symbol resolution\<close>

text \<open>
  C1 (as amended). Pass 1 starts the program counter at 0; a line that is ignored leaves
  the state as it is, a label declaration stores its name at the current counter if the
  table does not hold the name and leaves the counter, and every instruction adds 1 to
  the counter (lemmas \<open>pass1_step_ignored\<close>, \<open>pass1_step_label\<close>,
  \<open>pass1_step_instruction\<close>). Hence, in a program of fewer than \<open>2 ^ 31\<close> lines,
  for every label declaration: if the name is not one of the predefined symbols, it is
  bound to the number of address and computation instructions that precede the first
  declaration of the name, whichever declaration is looked at; if the name is
  predefined, the declaration stores nothing and the name keeps its predefined
  address. Pass 2 leaves either address in place, and the counter ends at the number
  of instructions of the program.
\<close>

theorem label_addresses:
  assumes "length prog < 2 ^ 31"
    and "i < length prog"
    and "is_label (prog ! i)"
  shows "(let s = line_symbol (prog ! i);
              a = (case SymbolTable s of
                     None \<Rightarrow> int (instructions_before (first_declaration s prog) prog)
                   | Some p \<Rightarrow> p)
          in first_declaration s prog \<le> i \<and>
             fst (pass1 prog) s = Some a \<and> symbols prog s = Some a) \<and>
         snd (pass1 prog) = int (length (filter is_instruction prog))"
proof -
  let ?s = "line_symbol (prog ! i)"
  let ?a = "case SymbolTable ?s of
              None \<Rightarrow> int (instructions_before (first_declaration ?s prog) prog)
            | Some p \<Rightarrow> p"
  have 0: "first_declaration ?s prog \<le> i"
    using assms(2,3) by (rule first_declaration_le) simp
  from pass1_declared [OF assms(2,3) refl, of "(SymbolTable, 0)"]
  have 1: "fst (pass1 prog) ?s = Some ?a"
    by (simp add: pass1_def split: option.splits)
  then have 2: "symbols prog ?s = Some ?a"
    by (rule symbols_keeps)
  have 3: "snd (pass1 prog) = int (length (filter is_instruction prog))"
    by (simp add: pass1_def pass1_counter)
  from 0 1 2 3 show ?thesis
    by (simp add: Let_def)
qed

theorem label_addresses_witness:
  "first_declaration ''LOOP''
     [''@0'', ''(LOOP)'', ''D=A'', ''(R5)'', ''@LOOP'', ''(LOOP)'', ''0;JMP''] = 1 \<and>
   symbols [''@0'', ''(LOOP)'', ''D=A'', ''(R5)'', ''@LOOP'', ''(LOOP)'', ''0;JMP'']
     ''LOOP'' = Some 1 \<and>
   symbols [''@0'', ''(LOOP)'', ''D=A'', ''(R5)'', ''@LOOP'', ''(LOOP)'', ''0;JMP'']
     ''R5'' = Some 5 \<and>
   snd (pass1 [''@0'', ''(LOOP)'', ''D=A'', ''(R5)'', ''@LOOP'', ''(LOOP)'', ''0;JMP'']) = 4"
proof -
  let ?prog = "[''@0'', ''(LOOP)'', ''D=A'', ''(R5)'', ''@LOOP'', ''(LOOP)'', ''0;JMP'']"
  have len: "length ?prog < 2 ^ 31"
    by simp
  have i5: "5 < length ?prog" and i3: "3 < length ?prog"
    by simp_all
  have label5: "is_label (?prog ! 5)" and label3: "is_label (?prog ! 3)"
    by code_simp+
  have name: "line_symbol (?prog ! 5) = ''LOOP''" "line_symbol (?prog ! 3) = ''R5''"
    by code_simp+
  have tab: "SymbolTable ''LOOP'' = None" "SymbolTable ''R5'' = Some 5"
    by code_simp+
  have first: "first_declaration ''LOOP'' ?prog = 1"
    by code_simp
  have count: "instructions_before 1 ?prog = 1" "length (filter is_instruction ?prog) = 4"
    by code_simp+
  from label_addresses [OF len i5 label5] label_addresses [OF len i3 label3]
  show ?thesis
    unfolding name Let_def tab first count by simp
qed

text \<open>
  C1 as stated fails for a label with a predefined name: in the program \<open>@1\<close>,
  \<open>(R5)\<close>, \<open>@R5\<close> one instruction precedes the declaration of \<open>R5\<close>, and
  \<open>R5\<close> resolves to 5.
\<close>

theorem predefined_label_counterexample:
  "is_label ([''@1'', ''(R5)'', ''@R5''] ! 1) \<and>
   line_symbol ([''@1'', ''(R5)'', ''@R5''] ! 1) = ''R5'' \<and>
   instructions_before 1 [''@1'', ''(R5)'', ''@R5''] = 1 \<and>
   fst (pass1 [''@1'', ''(R5)'', ''@R5'']) ''R5'' = Some 5 \<and>
   symbols [''@1'', ''(R5)'', ''@R5''] ''R5'' = Some 5 \<and>
   main [''@1'', ''(R5)'', ''@R5''] = [''0000000000000001'', ''0000000000000101'']"
  by code_simp

text \<open>
  C2. In a program of fewer than \<open>2 ^ 31\<close> lines, let the variables be the distinct
  symbols of address instructions that the table of pass 1 does not hold and that are
  not all digits, in the order of their first occurrence. The variable of index \<open>k\<close>
  (counted from 0) is bound to \<open>16 + k\<close>, every address instruction that names it is
  translated with this address, and the variable counter ends at 16 plus the number of
  variables: a symbol that occurs again does not advance it.
\<close>

theorem variable_addresses:
  assumes "length prog < 2 ^ 31"
    and "k < length (program_variables prog)"
  shows "symbols prog (program_variables prog ! k) = Some (16 + int k) \<and>
         snd (pass2 (fst (pass1 prog)) prog) = 16 + int (length (program_variables prog)) \<and>
         distinct (program_variables prog) \<and>
         (\<forall>raw \<in> set prog. is_address raw \<and> line_symbol raw = program_variables prog ! k \<longrightarrow>
            binaryCode (symbols prog) raw = encodeA (16 + int k))"
proof -
  let ?st = "(fst (pass1 prog), 16::int)"
  from pass2_variables [of ?st prog]
  have cnt: "snd (pass2 (fst (pass1 prog)) prog) = 16 + int (length (program_variables prog))"
    and tab: "\<forall>k < length (program_variables prog).
      symbols prog (program_variables prog ! k) = Some (16 + int k)"
    unfolding symbols_def pass2_def program_variables_def fst_conv snd_conv by blast+
  from tab assms(2) have 1: "symbols prog (program_variables prog ! k) = Some (16 + int k)"
    by blast
  have 3: "distinct (program_variables prog)"
    unfolding program_variables_def variables_def by (rule distinct_first_occurrences)
  have "binaryCode (symbols prog) raw = encodeA (16 + int k)"
    if "is_address raw" "line_symbol raw = program_variables prog ! k" for raw
    using that 1 by (simp add: binaryCode_address getAddress_def)
  with 1 cnt 3 show ?thesis by blast
qed

theorem variable_addresses_witness:
  "program_variables [''@foo'', ''(L)'', ''@bar'', ''@foo'', ''@7'', ''@L'', ''@R3'', ''@baz'']
     = [''foo'', ''bar'', ''baz''] \<and>
   symbols [''@foo'', ''(L)'', ''@bar'', ''@foo'', ''@7'', ''@L'', ''@R3'', ''@baz'']
     ''baz'' = Some 18 \<and>
   snd (pass2 (fst (pass1
     [''@foo'', ''(L)'', ''@bar'', ''@foo'', ''@7'', ''@L'', ''@R3'', ''@baz'']))
     [''@foo'', ''(L)'', ''@bar'', ''@foo'', ''@7'', ''@L'', ''@R3'', ''@baz'']) = 19"
proof -
  let ?prog = "[''@foo'', ''(L)'', ''@bar'', ''@foo'', ''@7'', ''@L'', ''@R3'', ''@baz'']"
  have vars: "program_variables ?prog = [''foo'', ''bar'', ''baz'']"
    by code_simp
  have len: "length ?prog < 2 ^ 31"
    by simp
  have k: "2 < length (program_variables ?prog)"
    unfolding vars by simp
  from variable_addresses [OF len k] show ?thesis
    unfolding vars by simp
qed

text \<open>
  C7 (as amended). For a symbol \<open>s\<close> that is all digits, \<open>stonum s\<close> is 0 when
  \<open>s\<close> has more than five characters or its decimal value is above 32767, and the
  decimal value otherwise, so that it lies between 0 and 32767. This is the address
  bound to \<open>s\<close> when \<open>s\<close> is the symbol of an address instruction and the program
  declares no label of that name. When the program declares a label named \<open>s\<close>,
  pass 1 has bound the name and pass 2 leaves it: \<open>s\<close> resolves to the address of the
  label.
\<close>

theorem numeric_literal_address:
  assumes "AllisNum s"
  shows "stonum s = (if length s > 5 \<or> dec_value s > 32767 then 0 else dec_value s) \<and>
         0 \<le> stonum s \<and> stonum s \<le> 32767 \<and>
         (s \<in> set (a_symbols prog) \<longrightarrow>
            symbols prog s =
              Some (if declared s prog
                    then int (instructions_before (first_declaration s prog) prog)
                    else stonum s))"
proof -
  have fresh: "fst (SymbolTable, 0::int) s = None"
    using predefined_not_numeric [OF assms] by simp
  have "symbols prog s =
      Some (if declared s prog
            then int (instructions_before (first_declaration s prog) prog)
            else stonum s)"
    if mem: "s \<in> set (a_symbols prog)"
  proof (cases "declared s prog")
    case True
    then obtain i where i: "i < length prog" "is_label (prog ! i)" "line_symbol (prog ! i) = s"
      unfolding declared_nth by blast
    from pass1_declared [OF i, of "(SymbolTable, 0)"] fresh
    have "fst (pass1 prog) s = Some (int (instructions_before (first_declaration s prog) prog))"
      by (simp add: pass1_def)
    then have "symbols prog s = Some (int (instructions_before (first_declaration s prog) prog))"
      by (rule symbols_keeps)
    with True show ?thesis by simp
  next
    case False
    then have nolabel: "\<forall>raw \<in> set prog. is_label raw \<longrightarrow> line_symbol raw \<noteq> s"
      by (auto simp: declared_def list_ex_iff)
    from fresh have "fst (pass1 prog) s = None"
      unfolding pass1_def using nolabel by (rule pass1_undeclared)
    then have "fst (fst (pass1 prog), 16::int) s = None"
      by simp
    with assms mem have "symbols prog s = Some (stonum s)"
      unfolding symbols_def pass2_def by (rule pass2_numeric)
    with False show ?thesis by simp
  qed
  with stonum_value [OF assms] stonum_range [OF assms] show ?thesis
    by blast
qed

theorem numeric_literal_address_witness:
  "AllisNum ''32768'' \<and> dec_value ''32768'' = 32768 \<and> stonum ''32768'' = 0 \<and>
   \<not> declared ''32768'' [''@1'', ''(7)'', ''@7'', ''@32768''] \<and>
   symbols [''@1'', ''(7)'', ''@7'', ''@32768''] ''32768'' = Some 0 \<and>
   declared ''7'' [''@1'', ''(7)'', ''@7'', ''@32768''] \<and>
   symbols [''@1'', ''(7)'', ''@7'', ''@32768''] ''7'' = Some 1"
proof -
  let ?prog = "[''@1'', ''(7)'', ''@7'', ''@32768'']"
  have num: "AllisNum ''32768''" "AllisNum ''7''"
    by code_simp+
  have dec: "dec_value ''32768'' = 32768"
    by code_simp
  have mem: "''32768'' \<in> set (a_symbols ?prog)" "''7'' \<in> set (a_symbols ?prog)"
    by code_simp+
  have decl: "\<not> declared ''32768'' ?prog" "declared ''7'' ?prog"
    by code_simp+
  have count: "instructions_before (first_declaration ''7'' ?prog) ?prog = 1"
    by code_simp
  from numeric_literal_address [OF num(1), of ?prog] mem(1) decl(1)
  have 1: "stonum ''32768'' = 0" "symbols ?prog ''32768'' = Some 0"
    unfolding dec by simp_all
  from numeric_literal_address [OF num(2), of ?prog] mem(2) decl(2)
  have 2: "symbols ?prog ''7'' = Some 1"
    unfolding count by simp
  from num(1) dec decl 1 2 show ?thesis
    by simp
qed

text \<open>
  C7 as stated fails when the digits are also the name of a label: in the program
  \<open>@1\<close>, \<open>(7)\<close>, \<open>@7\<close> the symbol \<open>7\<close> has the decimal value 7 and is bound to
  1, the address of the label.
\<close>

theorem numeric_label_counterexample:
  "AllisNum ''7'' \<and> length ''7'' \<le> 5 \<and> dec_value ''7'' = 7 \<and> stonum ''7'' = 7 \<and>
   is_address ([''@1'', ''(7)'', ''@7''] ! 2) \<and>
   line_symbol ([''@1'', ''(7)'', ''@7''] ! 2) = ''7'' \<and>
   symbols [''@1'', ''(7)'', ''@7''] ''7'' = Some 1 \<and>
   main [''@1'', ''(7)'', ''@7''] = [''0000000000000001'', ''0000000000000001'']"
  by code_simp

section \<open>Ignored lines and the lines written\<close>

lemma find_str_found: "find_str pat (u @ pat @ v) \<noteq> None"
proof (induction u)
  case Nil
  show ?case
  proof (cases "pat @ v")
    case Nil
    then show ?thesis by simp
  next
    case (Cons a list)
    have "take (length pat) (pat @ v) = pat" by simp
    with Cons show ?thesis by simp
  qed
next
  case (Cons x u)
  then show ?case by auto
qed

lemma find_str_occurs: "find_str pat s \<noteq> None \<Longrightarrow> \<exists>u v. s = u @ pat @ v"
proof (induction s)
  case Nil
  then show ?case by (simp split: if_splits)
next
  case (Cons x s)
  show ?case
  proof (cases "take (length pat) (x # s) = pat")
    case True
    then have "x # s = [] @ pat @ drop (length pat) (x # s)"
      by (metis append_Nil append_take_drop_id)
    then show ?thesis by blast
  next
    case False
    with Cons.prems have "find_str pat s \<noteq> None" by simp
    from Cons.IH [OF this] obtain u v where "s = u @ pat @ v" by blast
    then have "x # s = (x # u) @ pat @ v" by simp
    then show ?thesis by blast
  qed
qed

lemma comment_ignored:
  assumes "raw = u @ ''//'' @ v"
  shows "ignored (advance raw)"
proof -
  have "advance raw = trim u @ ''//'' @ trim v"
    by (simp add: assms advance_def trim_filter)
  then show ?thesis
    by (simp only: ignored_def find_str_found) simp
qed

lemma pass2_step_ignored: "ignored (advance raw) \<Longrightarrow> pass2_step st raw = st"
  by (simp add: pass2_step_def Let_def)

lemma binaryCode_ignored: "ignored (advance raw) \<Longrightarrow> binaryCode tab raw = []"
  by (simp add: binaryCode_def Let_def)

lemma pass3_step_ignored: "ignored (advance raw) \<Longrightarrow> pass3_step tab out raw = out"
  by (simp add: pass3_step_def binaryCode_ignored)

lemma pass3_acc:
  "foldl (pass3_step tab) out prog = out @ foldl (pass3_step tab) [] prog"
proof (induction prog arbitrary: out)
  case Nil
  show ?case by simp
next
  case (Cons raw prog)
  show ?case
    unfolding foldl_Cons
    by (subst Cons.IH, subst (2) Cons.IH) (simp add: pass3_step_def Let_def)
qed

lemma pass3_Cons:
  "pass3 tab (raw # prog) =
     (if binaryCode tab raw \<noteq> [] then binaryCode tab raw # pass3 tab prog else pass3 tab prog)"
  unfolding pass3_def foldl_Cons
  by (subst pass3_acc) (simp add: pass3_step_def Let_def)

lemma pass3_append: "pass3 tab (pre @ post) = pass3 tab pre @ pass3 tab post"
  by (induction pre) (simp_all add: pass3_Cons, simp add: pass3_def)

lemma index_str_absent: "m k = None \<Longrightarrow> index_str m k = []"
  by (simp add: index_str_def)

lemma dom_destMap:
  "dom destMap = {''null'', ''M'', ''D'', ''DM'', ''MD'', ''A'', ''AM'', ''AD'', ''ADM''}"
  unfolding destMap_def by (simp add: insert_commute)

lemma dom_jumpMap:
  "dom jumpMap = {''null'', ''JGT'', ''JEQ'', ''JGE'', ''JLT'', ''JNE'', ''JLE'', ''JMP''}"
  unfolding jumpMap_def by (simp add: insert_commute)

lemma compMap_length: "length (index_str compMap c) = (if compMap c = None then 0 else 6)"
proof (cases "compMap c")
  case None
  then show ?thesis by (simp add: index_str_def)
next
  case (Some v)
  then have "c \<in> dom compMap" by (simp add: dom_def)
  from compMap_register_form [OF this] Some show ?thesis by simp
qed

lemma destMap_length: "length (index_str destMap d) = (if destMap d = None then 0 else 3)"
proof (cases "destMap d")
  case None
  then show ?thesis by (simp add: index_str_def)
next
  case (Some v)
  then have "d \<in> dom destMap" by (simp add: dom_def)
  then have "length (index_str destMap d) = 3"
    unfolding dom_destMap
    by (elim insertE emptyE) (simp_all add: destMap_def index_str_def)
  with Some show ?thesis by simp
qed

lemma jumpMap_length: "length (index_str jumpMap j) = (if jumpMap j = None then 0 else 3)"
proof (cases "jumpMap j")
  case None
  then show ?thesis by (simp add: index_str_def)
next
  case (Some v)
  then have "j \<in> dom jumpMap" by (simp add: dom_def)
  then have "length (index_str jumpMap j) = 3"
    unfolding dom_jumpMap
    by (elim insertE emptyE) (simp_all add: jumpMap_def index_str_def)
  with Some show ?thesis by simp
qed

lemma binaryCode_computation:
  "is_computation raw \<Longrightarrow> binaryCode tab raw = encodeC (advance raw)"
  by (simp add: binaryCode_def is_computation_def Let_def)

lemma encodeC_fields:
  "encodeC line =
     ''111'' @ (if CHR ''M'' \<in> set (Parser_comp line) then ''1'' else ''0'') @
     index_str compMap (Parser_comp line) @ index_str destMap (Parser_dest line) @
     index_str jumpMap (Parser_jump line)"
  by (simp add: encodeC_def Code_comp_scan Code_dest_def Code_jump_def Let_def)

section \<open>Comments, whitespace and unknown mnemonics\<close>

text \<open>
  C10. A source line that contains \<open>//\<close> anywhere, also after an instruction or a
  label on the same line, is skipped whole by all three passes: it leaves the state of
  pass 1 (table and program counter) and of pass 2 (table and variable counter) as they
  are and writes no line in pass 3; it counts neither as an instruction nor as a label
  declaration, and the program with the line removed gives the same symbol table and
  the same output.
\<close>

theorem comment_lines_skipped:
  assumes "raw = u @ ''//'' @ v"
  shows "pass1_step st raw = st \<and> pass2_step st raw = st \<and> pass3_step tab out raw = out \<and>
         \<not> is_label raw \<and> \<not> is_instruction raw \<and>
         pass1 (pre @ raw # post) = pass1 (pre @ post) \<and>
         symbols (pre @ raw # post) = symbols (pre @ post) \<and>
         main (pre @ raw # post) = main (pre @ post)"
proof -
  have ign: "ignored (advance raw)"
    using assms by (rule comment_ignored)
  have p1: "pass1 (pre @ raw # post) = pass1 (pre @ post)"
    by (simp add: pass1_def pass1_step_ignored [OF ign])
  have p2: "pass2 t (pre @ raw # post) = pass2 t (pre @ post)" for t
    by (simp add: pass2_def pass2_step_ignored [OF ign])
  have p3: "pass3 t (pre @ raw # post) = pass3 t (pre @ post)" for t
    by (simp add: pass3_def pass3_step_ignored [OF ign])
  have sy: "symbols (pre @ raw # post) = symbols (pre @ post)"
    by (simp add: symbols_def p1 p2)
  have "main (pre @ raw # post) = main (pre @ post)"
    by (simp add: main_def sy p3)
  with ign p1 sy show ?thesis
    by (simp add: pass1_step_ignored pass2_step_ignored pass3_step_ignored
        ignored_not_label ignored_not_instruction)
qed

theorem comment_lines_skipped_witness:
  "main [''@1'', ''D=A // note'', ''(L) // here'', ''@L''] =
     [''0000000000000001'', ''0000000000010000''] \<and>
   main [''@1'', ''D=A // note'', ''(L) // here'', ''@L''] = main [''@1'', ''(L) // here'', ''@L''] \<and>
   snd (pass1 [''@1'', ''D=A // note'', ''(L) // here'', ''@L'']) = 2"
proof -
  have a: "''D=A // note'' = ''D=A '' @ ''//'' @ '' note''"
    by simp
  have m: "main [''@1'', ''D=A // note'', ''(L) // here'', ''@L''] =
      [''0000000000000001'', ''0000000000010000'']"
    by code_simp
  have c: "snd (pass1 [''@1'', ''D=A // note'', ''(L) // here'', ''@L'']) = 2"
    by code_simp
  from comment_lines_skipped [OF a, of _ _ _ "[''@1'']" "[''(L) // here'', ''@L'']"] m c
  show ?thesis
    by simp
qed

text \<open>
  C9. \<open>trim\<close> removes the space character and nothing else (lemma
  \<open>trim_filter\<close>). A computation line written with spaces between its fields is
  translated as the line without them, but a tab stays in the line: in
  \<open>D<tab>=<tab>A\<close> the destination field is \<open>D<tab>\<close> and the computation field
  \<open><tab>A\<close>, neither is a key of its table, and the line written has seven characters
  instead of the sixteen of \<open>D=A\<close>.
\<close>

theorem tab_not_trimmed:
  "trim '' D = A '' = ''D=A'' \<and>
   main ['' D = A ''] = [''1110110000010000''] \<and>
   trim [CHR ''D'', CHR 0x09, CHR ''='', CHR 0x09, CHR ''A''] =
     [CHR ''D'', CHR 0x09, CHR ''='', CHR 0x09, CHR ''A''] \<and>
   main [[CHR ''D'', CHR 0x09, CHR ''='', CHR 0x09, CHR ''A'']] = [''1110000'']"
  by code_simp

text \<open>
  C6 (as amended). The code has no error for an unknown mnemonic. For every computation
  instruction the line is written: \<open>111\<close>, the source-select bit, and the codes of
  the computation, destination and jump fields, where a field that is no key of its
  table contributes the empty string. The line has sixteen characters exactly when all
  three fields are keys, and the lines before and after it are translated as usual.
\<close>

theorem absent_mnemonic_line_written:
  assumes "is_computation raw"
  shows "(let line = advance raw;
              c = Parser_comp line; d = Parser_dest line; j = Parser_jump line
          in binaryCode tab raw =
               ''111'' @ (if CHR ''M'' \<in> set c then ''1'' else ''0'') @
               index_str compMap c @ index_str destMap d @ index_str jumpMap j \<and>
             (compMap c = None \<longrightarrow> index_str compMap c = []) \<and>
             (destMap d = None \<longrightarrow> index_str destMap d = []) \<and>
             (jumpMap j = None \<longrightarrow> index_str jumpMap j = []) \<and>
             (length (binaryCode tab raw) = 16 \<longleftrightarrow>
                compMap c \<noteq> None \<and> destMap d \<noteq> None \<and> jumpMap j \<noteq> None)) \<and>
         pass3 tab (pre @ raw # post) = pass3 tab pre @ binaryCode tab raw # pass3 tab post"
proof -
  let ?line = "advance raw"
  have code: "binaryCode tab raw =
      ''111'' @ (if CHR ''M'' \<in> set (Parser_comp ?line) then ''1'' else ''0'') @
      index_str compMap (Parser_comp ?line) @ index_str destMap (Parser_dest ?line) @
      index_str jumpMap (Parser_jump ?line)"
    using assms by (simp only: binaryCode_computation encodeC_fields)
  have len: "length (binaryCode tab raw) = 16 \<longleftrightarrow>
      compMap (Parser_comp ?line) \<noteq> None \<and> destMap (Parser_dest ?line) \<noteq> None \<and>
      jumpMap (Parser_jump ?line) \<noteq> None"
    unfolding code by (simp add: compMap_length destMap_length jumpMap_length)
  have "binaryCode tab raw \<noteq> []"
    unfolding code by simp
  then have out: "pass3 tab (pre @ raw # post) = pass3 tab pre @ binaryCode tab raw # pass3 tab post"
    by (simp add: pass3_append pass3_Cons)
  from code len out show ?thesis
    by (simp add: Let_def index_str_absent)
qed

theorem absent_mnemonic_line_written_witness:
  "is_computation ''D=X'' \<and> compMap (Parser_comp ''D=X'') = None \<and>
   binaryCode Map.empty ''D=X'' = ''1110010000'' \<and>
   pass3 Map.empty ([''D=A''] @ ''D=X'' # [''0;JMP'']) =
     [''1110110000010000'', ''1110010000'', ''1110101010000111'']"
proof -
  have c: "is_computation ''D=X''"
    by code_simp
  have n: "compMap (Parser_comp ''D=X'') = None"
    by code_simp
  have b: "binaryCode Map.empty ''D=X'' = ''1110010000''"
    by code_simp
  have p: "pass3 Map.empty [''D=A''] = [''1110110000010000'']"
    "pass3 Map.empty [''0;JMP''] = [''1110101010000111'']"
    by code_simp+
  from absent_mnemonic_line_written [OF c, of Map.empty "[''D=A'']" "[''0;JMP'']"]
  have "pass3 Map.empty ([''D=A''] @ ''D=X'' # [''0;JMP'']) =
      pass3 Map.empty [''D=A''] @ binaryCode Map.empty ''D=X'' # pass3 Map.empty [''0;JMP'']"
    by (rule conjunct2)
  with c n b p show ?thesis
    by simp
qed

text \<open>
  C6 as stated fails: in \<open>D=X\<close> the computation field \<open>X\<close> is no key of the
  computation table, yet the run writes a line of ten characters for it and goes on to
  translate the next line.
\<close>

theorem unknown_mnemonic_counterexample:
  "is_computation ''D=X'' \<and> Parser_comp (advance ''D=X'') = ''X'' \<and> compMap ''X'' = None \<and>
   main [''D=X'', ''@1''] = [''1110010000'', ''0000000000000001'']"
  by code_simp

end
